theory Spec2Isabelle
  imports Main "HOL-Library.AList"
begin

unbundle bit_operations_syntax

section \<open>Data model of graph.py\<close>

text \<open>
  Python integers are unbounded: they are \<^typ>\<open>int\<close>, with \<open>~\<close> as \<^term>\<open>NOT\<close> and
  \<open>&\<close> as \<open>AND\<close> (two's complement on an infinite sign extension, as in Python).

  The class \<open>Node\<close> defines neither \<open>__eq__\<close> nor \<open>__hash__\<close>, so the set of nodes and
  the dictionary of edges of a \<open>Graph\<close> compare Nodes by object identity, while
  \<open>has_node\<close> and \<open>get_node\<close> compare the values. A Node object is therefore its
  allocation identity together with its value: equality of two \<open>node\<close> records is
  Python's \<open>is\<close>, and two instances that hold the same value differ in \<open>ident\<close>.
\<close>

record node =
  ident :: nat
  node_value :: int

text \<open>\<open>_output\<close> is \<open>None\<close> until the first read of the property \<open>output\<close>.\<close>

record nand =
  input_a :: node
  input_b :: node
  nand_output :: "node option"

text \<open>
  The exceptions of the module. \<open>ValueError\<close> is raised with four different messages
  (three by the Graph, one by the builtin \<open>int\<close>); \<open>KeyError\<close> by a dictionary read.
\<close>

datatype error =
    NoNodeExists          \<comment> \<open>\<open>ValueError('No Node exists with the given value')\<close>\<close>
  | NodeAlreadyExists     \<comment> \<open>\<open>ValueError('Node already exists')\<close>\<close>
  | NodesNotPresent       \<comment> \<open>\<open>ValueError('Nodes not present in the Graph!')\<close>\<close>
  | InvalidLiteral        \<comment> \<open>\<open>ValueError\<close> of \<open>int(x)\<close> on a text that is no integer literal\<close>
  | KeyError              \<comment> \<open>\<open>self.edges[source]\<close> where \<open>source\<close> is no key\<close>
  | TypeError             \<comment> \<open>\<open>super(InvalidInputError).__init__(message)\<close>\<close>
  | IndexError            \<comment> \<open>\<open>output[0]\<close> on an empty list\<close>
  | InvalidInputError     \<comment> \<open>the module's own exception class\<close>

section \<open>The NAND gate\<close>

definition NAND_init :: "node \<Rightarrow> node \<Rightarrow> nand" where
  "NAND_init a b = \<lparr>input_a = a, input_b = b, nand_output = None\<rparr>"

text \<open>
  The \<open>while True\<close> loop of \<open>_compute\<close>. Nothing in the loop itself bounds the number of
  doublings, so a run that never leaves it is the value \<open>None\<close>.
\<close>

partial_function (option) find_bits :: "int \<Rightarrow> nat \<Rightarrow> nat option" where
  "find_bits and_result bits =
     (if \<bar>and_result\<bar> < 2 ^ bits then Some bits
      else find_bits and_result (bits * 2))"

declare find_bits.simps [code]

text \<open>
  \<open>_compute\<close>: a cached output is kept; otherwise a new Node is allocated for the value.
  The second argument is the next free object identity, returned updated.
\<close>

definition compute :: "nand \<Rightarrow> nat \<Rightarrow> (nand \<times> nat) option" where
  "compute gate fresh =
     (case nand_output gate of
        Some _ \<Rightarrow> Some (gate, fresh)
      | None \<Rightarrow>
          (let and_result = NOT (node_value (input_a gate) AND node_value (input_b gate))
           in case find_bits and_result 4 of
                None \<Rightarrow> None
              | Some bits \<Rightarrow>
                  Some (gate\<lparr>nand_output :=
                          Some \<lparr>ident = fresh, node_value = 2 ^ bits - \<bar>and_result\<bar>\<rparr>\<rparr>,
                        Suc fresh)))"

text \<open>The property \<open>output\<close> of the gate: compute, then read the cache.\<close>

definition read_output :: "nand \<Rightarrow> nat \<Rightarrow> (node \<times> nand \<times> nat) option" where
  "read_output gate fresh =
     (case compute gate fresh of
        None \<Rightarrow> None
      | Some (gate', fresh') \<Rightarrow>
          (case nand_output gate' of
             None \<Rightarrow> None
           | Some nd \<Rightarrow> Some (nd, gate', fresh')))"

section \<open>Python strings and the builtins used by \<open>parse_input\<close>\<close>

text \<open>
  A text is a \<^typ>\<open>string\<close>, one \<^typ>\<open>char\<close> for each code point below 256; texts with
  other code points are outside the model. Among these code points the class \<open>\d\<close> of
  \<open>re\<close> holds the ten ASCII digits, and \<open>.\<close> (no DOTALL flag) every character but the
  line feed.
\<close>

definition is_digit :: "char \<Rightarrow> bool" where
  "is_digit c = (c \<in> set ''0123456789'')"

definition digit_value :: "char \<Rightarrow> int" where
  "digit_value c = int (of_char c) - 48"

definition digit_char :: "nat \<Rightarrow> char" where
  "digit_char n = ''0123456789'' ! (n mod 10)"

text \<open>
  \<open>\d*\<close> is greedy: the backtracking matcher of \<open>re\<close> first takes every digit there is and
  gives them back one at a time when the rest of the pattern fails. \<open>digit_star s\<close> lists
  the ways to split \<open>s\<close> into the digits taken and the text left, in the order tried.
\<close>

fun digit_star :: "string \<Rightarrow> (string \<times> string) list" where
  "digit_star [] = [([], [])]"
| "digit_star (c # cs) =
     (if is_digit c then map (\<lambda>(d, r). (c # d, r)) (digit_star cs) else [])
     @ [([], c # cs)]"

text \<open>
  The pattern \<open>r'!\((\d*).(\d*)\)'\<close> matched at the start of a text: every way the pattern
  matches there, in the order the matcher finds them, each as \<open>(group(), group(1),
  group(2))\<close>. The dot of the pattern is not escaped.
\<close>

definition nand_expression :: "string \<Rightarrow> (string \<times> string \<times> string) list" where
  "nand_expression s =
     (case s of
        c1 # c2 # r \<Rightarrow>
          if c1 = CHR ''!'' \<and> c2 = CHR ''('' then
            concat (map (\<lambda>(g1, r1).
              case r1 of
                [] \<Rightarrow> []
              | c # r2 \<Rightarrow>
                  if c = CHR 0x0A then []
                  else concat (map (\<lambda>(g2, r3).
                         case r3 of
                           [] \<Rightarrow> []
                         | c3 # r4 \<Rightarrow>
                             if c3 = CHR '')''
                             then [(''!('' @ g1 @ [c] @ g2 @ '')'', g1, g2)]
                             else [])
                       (digit_star r2)))
              (digit_star r))
          else []
      | _ \<Rightarrow> [])"

text \<open>\<open>re.search\<close>: the first match at the leftmost position that has one.\<close>

fun search :: "string \<Rightarrow> (string \<times> string \<times> string) option" where
  "search [] = None"
| "search (c # cs) =
     (case nand_expression (c # cs) of
        m # _ \<Rightarrow> Some m
      | [] \<Rightarrow> search cs)"

text \<open>
  \<open>str.replace(old, new)\<close>: every occurrence of \<open>old\<close>, found from the left without
  overlaps, becomes \<open>new\<close>. With an empty \<open>old\<close>, \<open>new\<close> goes before every character and
  at the end.
\<close>

fun replace_nonempty :: "string \<Rightarrow> string \<Rightarrow> string \<Rightarrow> string" where
  "replace_nonempty [] old new = []"
| "replace_nonempty (c # cs) old new =
     (if take (length old) (c # cs) = old
      then new @ replace_nonempty (drop (length old - 1) cs) old new
      else c # replace_nonempty cs old new)"

definition py_replace :: "string \<Rightarrow> string \<Rightarrow> string \<Rightarrow> string" where
  "py_replace s old new =
     (if old = [] then concat (map (\<lambda>c. new @ [c]) s) @ new
      else replace_nonempty s old new)"

text \<open>\<open>str.split('.')\<close>: the pieces between the dots; never an empty list.\<close>

fun py_split :: "string \<Rightarrow> string list" where
  "py_split [] = [[]]"
| "py_split (c # cs) =
     (if c = CHR ''.'' then [] # py_split cs
      else (case py_split cs of
              p # ps \<Rightarrow> (c # p) # ps
            | [] \<Rightarrow> [[c]]))"

text \<open>
  \<open>int(x)\<close> on a text, base ten: white space around the literal is dropped, then comes an
  optional sign, then digits, where single underscores may stand between two digits.
  Anything else raises \<open>ValueError\<close>. The white space of code points below 256 that
  \<open>int\<close> accepts is 9 to 13, 32, 133 and 160. (The limit on the number of digits that
  later Python versions impose is not modelled.)
\<close>

definition is_space :: "char \<Rightarrow> bool" where
  "is_space c = (of_char c \<in> {9, 10, 11, 12, 13, 32, 133, 160 :: nat})"

definition strip :: "string \<Rightarrow> string" where
  "strip s = rev (dropWhile is_space (rev (dropWhile is_space s)))"

fun literal_digits :: "string \<Rightarrow> bool" where
  "literal_digits [] = False"
| "literal_digits [c] = is_digit c"
| "literal_digits (c # d # cs) =
     (is_digit c \<and>
      (if d = CHR ''_'' then literal_digits cs else literal_digits (d # cs)))"

definition digits_value :: "string \<Rightarrow> int" where
  "digits_value ds = foldl (\<lambda>acc c. 10 * acc + digit_value c) 0 ds"

definition py_int :: "string \<Rightarrow> error + int" where
  "py_int x =
     (let t = strip x;
          negative = (case t of c # _ \<Rightarrow> c = CHR ''-'' | [] \<Rightarrow> False);
          body = (case t of
                    c # r \<Rightarrow> if c = CHR ''-'' \<or> c = CHR ''+'' then r else t
                  | [] \<Rightarrow> t)
      in if literal_digits body
         then (let v = digits_value (filter (\<lambda>c. c \<noteq> CHR ''_'') body)
               in Inr (if negative then - v else v))
         else Inl InvalidLiteral)"

text \<open>\<open>list(map(int, pieces))\<close>: the first piece that is no literal raises.\<close>

fun map_int :: "string list \<Rightarrow> error + int list" where
  "map_int [] = Inr []"
| "map_int (p # ps) =
     (case py_int p of
        Inl e \<Rightarrow> Inl e
      | Inr v \<Rightarrow> (case map_int ps of Inl e \<Rightarrow> Inl e | Inr vs \<Rightarrow> Inr (v # vs)))"

text \<open>\<open>str(n)\<close> of an integer: decimal digits, after a minus sign when negative.\<close>

fun str_nat :: "nat \<Rightarrow> string" where
  "str_nat n = (if n < 10 then [digit_char n] else str_nat (n div 10) @ [digit_char n])"

definition py_str :: "int \<Rightarrow> string" where
  "py_str i = (if i < 0 then CHR ''-'' # str_nat (nat (- i)) else str_nat (nat i))"

section \<open>The Graph\<close>

text \<open>
  \<open>_nodes\<close> is a Python set and each value of \<open>_edges\<close> is one: a list without
  repetition, in some order of iteration (no statement below depends on the order).
  \<open>_edges\<close> is a dictionary keyed by Node objects: an association list.
\<close>

record graph =
  nodes :: "node list"
  edges :: "(node \<times> node list) list"

definition Graph_init :: graph where
  "Graph_init = \<lparr>nodes = [], edges = []\<rparr>"

text \<open>\<open>set.add\<close>: nothing happens when the object is already a member.\<close>

definition set_add :: "'a \<Rightarrow> 'a list \<Rightarrow> 'a list" where
  "set_add x xs = (if x \<in> set xs then xs else xs @ [x])"

definition has_node :: "graph \<Rightarrow> node \<Rightarrow> bool" where
  "has_node g nd = list_ex (\<lambda>i. node_value i = node_value nd) (nodes g)"

definition get_node :: "graph \<Rightarrow> int \<Rightarrow> error + node" where
  "get_node g v =
     (case find (\<lambda>nd. node_value nd = v) (nodes g) of
        Some nd \<Rightarrow> Inr nd
      | None \<Rightarrow> Inl NoNodeExists)"

definition add_node :: "graph \<Rightarrow> node \<Rightarrow> bool \<Rightarrow> error + graph" where
  "add_node g nd ignore_errors =
     (if has_node g nd then
        (if ignore_errors = False then Inl NodeAlreadyExists else Inr g)
      else Inr (g\<lparr>nodes := set_add nd (nodes g),
                  edges := AList.update nd [] (edges g)\<rparr>))"

text \<open>
  \<open>add_edge\<close>: the test is \<open>has_node\<close>, by value; \<open>self.edges[source]\<close> is a dictionary
  read by object, which raises \<open>KeyError\<close> when \<open>source\<close> is not a key, and
  \<open>destination not in ...\<close> is membership by object.
\<close>

definition add_edge :: "graph \<Rightarrow> nand \<Rightarrow> error + graph" where
  "add_edge g edge =
     (let source = input_a edge; destination = input_b edge
      in if \<not> (has_node g source \<and> has_node g destination) then Inl NodesNotPresent
         else (case map_of (edges g) source of
                 None \<Rightarrow> Inl KeyError
               | Some ds \<Rightarrow>
                   if destination \<notin> set ds
                   then Inr (g\<lparr>edges := AList.update source (set_add destination ds) (edges g)\<rparr>)
                   else Inr g))"

text \<open>
  Two observations of a Graph, used to state properties: the edges as pairs of values
  (source, destination), and whether every stored vertex is a key of the adjacency
  dictionary, which \<open>Graph()\<close> and the two mutators establish and keep.
\<close>

definition edge_pairs :: "graph \<Rightarrow> (int \<times> int) list" where
  "edge_pairs g =
     concat (map (\<lambda>(a, ds). map (\<lambda>b. (node_value a, node_value b)) ds) (edges g))"

definition keys_ok :: "graph \<Rightarrow> bool" where
  "keys_ok g = list_all (\<lambda>nd. map_of (edges g) nd \<noteq> None) (nodes g)"

section \<open>The reducer \<open>parse_input\<close>\<close>

text \<open>
  \<open>except ValueError\<close> catches the \<open>ValueError\<close>s and the subclass
  \<open>InvalidInputError\<close>, nothing else.
\<close>

definition is_ValueError :: "error \<Rightarrow> bool" where
  "is_ValueError e =
     (e \<in> {NoNodeExists, NodeAlreadyExists, NodesNotPresent, InvalidLiteral, InvalidInputError})"

text \<open>
  \<open>try: node = graph.get_node(node.value)  except ValueError: pass\<close>: the stored Node
  with the value when there is one, the new Node otherwise.
\<close>

definition resolve :: "graph \<Rightarrow> node \<Rightarrow> error + node" where
  "resolve g nd =
     (case get_node g (node_value nd) of
        Inr stored \<Rightarrow> Inr stored
      | Inl e \<Rightarrow> if is_ValueError e then Inr nd else Inl e)"

text \<open>
  The gate of one iteration: \<open>NAND(node1, node2)\<close>, the two \<open>add_node\<close> calls, \<open>add_edge\<close>
  and \<open>add_node\<close> of the output, which is computed by this first read of \<open>output\<close>.
\<close>

definition build_gate ::
  "graph \<Rightarrow> node \<Rightarrow> node \<Rightarrow> nat \<Rightarrow> (error + graph \<times> nand \<times> nat) option" where
  "build_gate g node1 node2 fresh =
     (let nand1 = NAND_init node1 node2
      in case add_node g node1 True of
           Inl e \<Rightarrow> Some (Inl e)
         | Inr g1 \<Rightarrow>
      (case add_node g1 node2 True of
           Inl e \<Rightarrow> Some (Inl e)
         | Inr g2 \<Rightarrow>
      (case add_edge g2 nand1 of
           Inl e \<Rightarrow> Some (Inl e)
         | Inr g3 \<Rightarrow>
      (case read_output nand1 fresh of
           None \<Rightarrow> None
         | Some (out, nand1', fresh') \<Rightarrow>
      (case add_node g3 out True of
           Inl e \<Rightarrow> Some (Inl e)
         | Inr g4 \<Rightarrow> Some (Inr (g4, nand1', fresh')))))))"

text \<open>
  The body of \<open>while match\<close>, for the match \<open>m = (group(), group(1), group(2))\<close>: the
  two operands are converted and wrapped in new Nodes, resolved against the Graph, the
  gate is built, and every occurrence of the matched text is replaced by the decimal
  text of the output value. The string \<open>output_str\<close>, which is only printed, is left out.
\<close>

definition loop_body ::
  "graph \<Rightarrow> nat \<Rightarrow> string \<Rightarrow> string \<times> string \<times> string
     \<Rightarrow> (error + graph \<times> nat \<times> string) option" where
  "loop_body g fresh input_string m =
     (case m of (group0, group1, group2) \<Rightarrow>
      (case py_int group1 of
           Inl e \<Rightarrow> Some (Inl e)
         | Inr v1 \<Rightarrow>
      (case py_int group2 of
           Inl e \<Rightarrow> Some (Inl e)
         | Inr v2 \<Rightarrow>
      (case resolve g \<lparr>ident = fresh, node_value = v1\<rparr> of
           Inl e \<Rightarrow> Some (Inl e)
         | Inr node1 \<Rightarrow>
      (case resolve g \<lparr>ident = Suc fresh, node_value = v2\<rparr> of
           Inl e \<Rightarrow> Some (Inl e)
         | Inr node2 \<Rightarrow>
      (case build_gate g node1 node2 (Suc (Suc fresh)) of
           None \<Rightarrow> None
         | Some (Inl e) \<Rightarrow> Some (Inl e)
         | Some (Inr (g', nand1, fresh')) \<Rightarrow>
      (case read_output nand1 fresh' of
           None \<Rightarrow> None
         | Some (out, nand1', fresh'') \<Rightarrow>
             Some (Inr (g', fresh'',
                        py_replace input_string group0 (py_str (node_value out)))))))))))"

text \<open>
  The loop \<open>while match\<close>. Its state is the Graph, the next free object identity and
  the text. \<open>None\<close> is a run that never leaves the loop, \<open>Some (Inl e)\<close> an exception that
  leaves it.
\<close>

partial_function (option) reduce_loop ::
  "graph \<Rightarrow> nat \<Rightarrow> string \<Rightarrow> (error + graph \<times> nat \<times> string) option" where
  "reduce_loop g fresh input_string =
     (case search input_string of
        None \<Rightarrow> Some (Inr (g, fresh, input_string))
      | Some m \<Rightarrow>
          (case loop_body g fresh input_string m of
             None \<Rightarrow> None
           | Some (Inl e) \<Rightarrow> Some (Inl e)
           | Some (Inr (g', fresh', input_string')) \<Rightarrow> reduce_loop g' fresh' input_string'))"

declare reduce_loop.simps [code]

text \<open>
  \<open>InvalidInputError.__init__\<close> calls \<open>super(InvalidInputError).__init__(message)\<close>.
  \<open>super\<close> with one argument is an unbound super object, and \<open>__init__\<close> read from it
  is that object's own initialiser \<open>super.__init__(type, obj=None)\<close>: the call passes the
  message where a type is expected and raises
  \<open>TypeError: super() argument 1 must be type, not str\<close>. So no instance of
  \<open>InvalidInputError\<close> is ever constructed, and the statement
  \<open>raise InvalidInputError(...)\<close> leaves with the \<open>TypeError\<close>.
\<close>

definition InvalidInputError_init :: "string \<Rightarrow> error + unit" where
  "InvalidInputError_init message = Inl TypeError"

definition raise_InvalidInputError :: "string \<Rightarrow> error" where
  "raise_InvalidInputError message =
     (case InvalidInputError_init message of
        Inl e \<Rightarrow> e
      | Inr _ \<Rightarrow> InvalidInputError)"

text \<open>The lines after the loop: split, convert, and combine the operands.\<close>

definition finalize :: "string \<Rightarrow> error + int" where
  "finalize input_string =
     (case map_int (py_split input_string) of
        Inl e \<Rightarrow> Inl e
      | Inr out \<Rightarrow>
          if length out > 2
          then Inl (raise_InvalidInputError ''Input is not in the expected format'')
          else if length out = 2 then Inr ((out ! 0) AND (out ! 1))
          else (case out of [] \<Rightarrow> Inl IndexError | x # _ \<Rightarrow> Inr x))"

definition parse_input :: "string \<Rightarrow> (error + graph \<times> int) option" where
  "parse_input input_string =
     (case reduce_loop Graph_init 0 input_string of
        None \<Rightarrow> None
      | Some (Inl e) \<Rightarrow> Some (Inl e)
      | Some (Inr (g, fresh, input_string')) \<Rightarrow>
          (case finalize input_string' of
             Inl e \<Rightarrow> Some (Inl e)
           | Inr v \<Rightarrow> Some (Inr (g, v))))"

section \<open>The width loop\<close>

lemma find_bits_doubling:
  "0 < bits \<Longrightarrow>
   \<exists>k. find_bits r bits = Some (bits * 2 ^ k) \<and> \<bar>r\<bar> < 2 ^ (bits * 2 ^ k)
       \<and> (\<forall>j<k. 2 ^ (bits * 2 ^ j) \<le> \<bar>r\<bar>)"
proof (induction "nat (abs r) - bits" arbitrary: bits rule: less_induct)
  case less
  show ?case
  proof (cases "\<bar>r\<bar> < 2 ^ bits")
    case True
    then have "find_bits r bits = Some (bits * 2 ^ 0) \<and> \<bar>r\<bar> < 2 ^ (bits * 2 ^ 0)
        \<and> (\<forall>j<0::nat. (2::int) ^ (bits * 2 ^ j) \<le> \<bar>r\<bar>)"
      by (simp add: find_bits.simps)
    then show ?thesis by blast
  next
    case False
    then have big: "(2::int) ^ bits \<le> \<bar>r\<bar>" by simp
    have "int bits < 2 ^ bits"
      by (metis of_nat_less_numeral_power_cancel_iff less_exp)
    with big have "bits < nat \<bar>r\<bar>" by linarith
    with less.prems have "nat (abs r) - bits * 2 < nat (abs r) - bits" by linarith
    moreover from less.prems have "0 < bits * 2" by simp
    ultimately obtain k where k:
      "find_bits r (bits * 2) = Some (bits * 2 * 2 ^ k)"
      "\<bar>r\<bar> < 2 ^ (bits * 2 * 2 ^ k)"
      "\<forall>j<k. 2 ^ (bits * 2 * 2 ^ j) \<le> \<bar>r\<bar>"
      using less.hyps by blast
    have step: "find_bits r bits = find_bits r (bits * 2)"
      using False by (subst find_bits.simps) simp
    have "\<forall>j<Suc k. 2 ^ (bits * 2 ^ j) \<le> \<bar>r\<bar>"
    proof (intro allI impI)
      fix j assume "j < Suc k"
      show "2 ^ (bits * 2 ^ j) \<le> \<bar>r\<bar>"
      proof (cases j)
        case 0
        with big show ?thesis by simp
      next
        case (Suc i)
        with \<open>j < Suc k\<close> have "i < k" by simp
        with k(3) have "2 ^ (bits * 2 * 2 ^ i) \<le> \<bar>r\<bar>" by blast
        with Suc show ?thesis by (simp add: mult.assoc)
      qed
    qed
    with k step have "find_bits r bits = Some (bits * 2 ^ Suc k)
        \<and> \<bar>r\<bar> < 2 ^ (bits * 2 ^ Suc k) \<and> (\<forall>j<Suc k. 2 ^ (bits * 2 ^ j) \<le> \<bar>r\<bar>)"
      by (simp add: mult.assoc)
    then show ?thesis by blast
  qed
qed

text \<open>
  C1. For all integers \<open>a\<close> and \<open>b\<close> the output of a new Gate on Nodes holding \<open>a\<close> and \<open>b\<close>
  is computed (the width loop returns), and its value is \<open>2^w - |~(a & b)|\<close> where \<open>w\<close> is
  the first width of the sequence 4, 8, 16, ... (\<open>w = 4 * 2^k\<close>) with \<open>|~(a & b)| < 2^w\<close>:
  every earlier width of the sequence was too small. The value is not negative.
\<close>

theorem nand_output_value:
  "\<exists>k nd gate' fresh'.
     read_output (NAND_init \<lparr>ident = i, node_value = a\<rparr> \<lparr>ident = j, node_value = b\<rparr>) fresh
       = Some (nd, gate', fresh')
     \<and> node_value nd = 2 ^ (4 * 2 ^ k) - \<bar>NOT (a AND b)\<bar>
     \<and> \<bar>NOT (a AND b)\<bar> < 2 ^ (4 * 2 ^ k)
     \<and> (\<forall>m<k. 2 ^ (4 * 2 ^ m) \<le> \<bar>NOT (a AND b)\<bar>)
     \<and> 0 \<le> node_value nd"
proof -
  obtain k where k:
    "find_bits (NOT (a AND b)) 4 = Some (4 * 2 ^ k)"
    "\<bar>NOT (a AND b)\<bar> < 2 ^ (4 * 2 ^ k)"
    "\<forall>m<k. 2 ^ (4 * 2 ^ m) \<le> \<bar>NOT (a AND b)\<bar>"
    using find_bits_doubling [of 4 "NOT (a AND b)"] by auto
  let ?nd = "\<lparr>ident = fresh, node_value = 2 ^ (4 * 2 ^ k) - \<bar>NOT (a AND b)\<bar>\<rparr>"
  have "read_output (NAND_init \<lparr>ident = i, node_value = a\<rparr> \<lparr>ident = j, node_value = b\<rparr>) fresh
      = Some (?nd, (NAND_init \<lparr>ident = i, node_value = a\<rparr> \<lparr>ident = j, node_value = b\<rparr>)
                     \<lparr>nand_output := Some ?nd\<rparr>, Suc fresh)"
    using k(1)
    by (simp add: read_output_def compute_def NAND_init_def del: bit.de_Morgan_conj)
  moreover have "node_value ?nd = 2 ^ (4 * 2 ^ k) - \<bar>NOT (a AND b)\<bar>"
    by (simp del: bit.de_Morgan_conj)
  moreover have "0 \<le> node_value ?nd"
    using k(2) by (simp del: bit.de_Morgan_conj)
  ultimately show ?thesis
    using k(2,3) by blast
qed

theorem nand_output_value_witness:
  "\<exists>nd gate' fresh'.
     read_output (NAND_init \<lparr>ident = 0, node_value = 1\<rparr> \<lparr>ident = 1, node_value = 2\<rparr>) 2
       = Some (nd, gate', fresh')
     \<and> node_value nd = 15"
proof -
  have r: "\<bar>NOT (1 AND 2 :: int)\<bar> = 1"
    by (simp del: bit.de_Morgan_conj)
  obtain k nd gate' fresh' where h:
    "read_output (NAND_init \<lparr>ident = 0, node_value = 1\<rparr> \<lparr>ident = 1, node_value = 2\<rparr>) 2
       = Some (nd, gate', fresh')"
    "node_value nd = 2 ^ (4 * 2 ^ k) - \<bar>NOT (1 AND 2 :: int)\<bar>"
    "\<forall>m<k. 2 ^ (4 * 2 ^ m) \<le> \<bar>NOT (1 AND 2 :: int)\<bar>"
    using nand_output_value [of 0 1 1 2 2] by blast
  have "k = 0"
  proof (rule ccontr)
    assume "k \<noteq> 0"
    then have "0 < k" by simp
    with h(3) have "2 ^ (4 * 2 ^ 0) \<le> \<bar>NOT (1 AND 2 :: int)\<bar>" by blast
    with r show False by simp
  qed
  with h(2) r have "node_value nd = 15" by simp
  with h(1) show ?thesis by blast
qed

section \<open>Graph operations\<close>

lemma has_node_iff: "has_node g nd \<longleftrightarrow> node_value nd \<in> node_value ` set (nodes g)"
  unfolding has_node_def list_ex_iff image_iff by metis

lemma has_node_member: "nd \<in> set (nodes g) \<Longrightarrow> has_node g nd"
  by (auto simp: has_node_iff)

lemma set_set_add: "set (set_add x xs) = insert x (set xs)"
  by (auto simp: set_add_def)

lemma add_node_absent:
  "\<not> has_node g nd \<Longrightarrow>
   add_node g nd ig = Inr (g\<lparr>nodes := nodes g @ [nd], edges := AList.update nd [] (edges g)\<rparr>)"
  by (auto simp: add_node_def set_add_def dest: has_node_member)

lemma add_node_values:
  "add_node g nd ig = Inr g' \<Longrightarrow> distinct (map node_value (nodes g)) \<Longrightarrow>
   distinct (map node_value (nodes g'))"
  by (auto simp: add_node_def set_add_def has_node_iff split: if_splits)

text \<open>
  C9. \<open>add_node\<close>, for every Graph and Node. When no stored vertex has the value of the
  Node, the Node is added and gets an empty destination set, and the other entries of
  the adjacency dictionary are kept. When one has, the call raises "Node already exists"
  with \<open>ignore_errors\<close> false, and returns with the Graph unchanged with \<open>ignore_errors\<close>
  true. Hence a vertex set whose values are pairwise different stays so.
\<close>

theorem add_node_contract:
  "(\<not> has_node g nd \<longrightarrow>
      (\<exists>g'. add_node g nd ig = Inr g'
         \<and> set (nodes g') = insert nd (set (nodes g))
         \<and> map_of (edges g') nd = Some []
         \<and> (\<forall>k. k \<noteq> nd \<longrightarrow> map_of (edges g') k = map_of (edges g) k)))
   \<and> (has_node g nd \<and> \<not> ig \<longrightarrow> add_node g nd ig = Inl NodeAlreadyExists)
   \<and> (has_node g nd \<and> ig \<longrightarrow> add_node g nd ig = Inr g)
   \<and> (\<forall>g'. distinct (map node_value (nodes g)) \<and> add_node g nd ig = Inr g'
          \<longrightarrow> distinct (map node_value (nodes g')))"
proof (intro conjI impI allI)
  assume absent: "\<not> has_node g nd"
  let ?g' = "g\<lparr>nodes := nodes g @ [nd], edges := AList.update nd [] (edges g)\<rparr>"
  have "add_node g nd ig = Inr ?g'" using absent by (rule add_node_absent)
  moreover have "set (nodes ?g') = insert nd (set (nodes g))" by simp
  moreover have "map_of (edges ?g') nd = Some []" by (simp add: update_conv')
  moreover have "\<forall>k. k \<noteq> nd \<longrightarrow> map_of (edges ?g') k = map_of (edges g) k"
    by (simp add: update_conv')
  ultimately show "\<exists>g'. add_node g nd ig = Inr g'
         \<and> set (nodes g') = insert nd (set (nodes g))
         \<and> map_of (edges g') nd = Some []
         \<and> (\<forall>k. k \<noteq> nd \<longrightarrow> map_of (edges g') k = map_of (edges g) k)"
    by blast
next
  assume "has_node g nd \<and> \<not> ig"
  then show "add_node g nd ig = Inl NodeAlreadyExists" by (simp add: add_node_def)
next
  assume "has_node g nd \<and> ig"
  then show "add_node g nd ig = Inr g" by (simp add: add_node_def)
next
  fix g'
  assume "distinct (map node_value (nodes g)) \<and> add_node g nd ig = Inr g'"
  then show "distinct (map node_value (nodes g'))" using add_node_values by blast
qed


theorem add_node_contract_witness:
  "add_node Graph_init \<lparr>ident = 0, node_value = 5\<rparr> False
     = Inr \<lparr>nodes = [\<lparr>ident = 0, node_value = 5\<rparr>],
            edges = [(\<lparr>ident = 0, node_value = 5\<rparr>, [])]\<rparr>
   \<and> add_node \<lparr>nodes = [\<lparr>ident = 0, node_value = 5\<rparr>],
               edges = [(\<lparr>ident = 0, node_value = 5\<rparr>, [])]\<rparr>
        \<lparr>ident = 1, node_value = 5\<rparr> False = Inl NodeAlreadyExists
   \<and> add_node \<lparr>nodes = [\<lparr>ident = 0, node_value = 5\<rparr>],
               edges = [(\<lparr>ident = 0, node_value = 5\<rparr>, [])]\<rparr>
        \<lparr>ident = 1, node_value = 5\<rparr> True
     = Inr \<lparr>nodes = [\<lparr>ident = 0, node_value = 5\<rparr>],
            edges = [(\<lparr>ident = 0, node_value = 5\<rparr>, [])]\<rparr>
   \<and> distinct (map node_value (nodes \<lparr>nodes = [\<lparr>ident = 0, node_value = 5\<rparr>],
               edges = [(\<lparr>ident = 0, node_value = 5\<rparr>, [])]\<rparr>))"
proof -
  let ?n = "\<lparr>ident = 0, node_value = 5\<rparr>"
  let ?n' = "\<lparr>ident = 1, node_value = 5\<rparr>"
  let ?G = "\<lparr>nodes = [?n], edges = [(?n, [])]\<rparr>"
  have new: "add_node Graph_init ?n False = Inr ?G"
    by (simp add: add_node_def has_node_def Graph_init_def set_add_def)
  have absent: "\<not> has_node Graph_init ?n"
    by (simp add: has_node_def Graph_init_def)
  have present: "has_node ?G ?n'"
    by (simp add: has_node_def)
  have "distinct (map node_value (nodes Graph_init))"
    by (simp add: Graph_init_def)
  with new add_node_contract [of Graph_init ?n False]
  have d: "distinct (map node_value (nodes ?G))" by blast
  from present add_node_contract [of ?G ?n' False]
  have dup: "add_node ?G ?n' False = Inl NodeAlreadyExists" by blast
  from present add_node_contract [of ?G ?n' True]
  have ign: "add_node ?G ?n' True = Inr ?G" by blast
  from new dup ign d show ?thesis by blast
qed

lemma add_edge_NodesNotPresent_iff:
  "add_edge g e = Inl NodesNotPresent
     \<longleftrightarrow> \<not> (has_node g (input_a e) \<and> has_node g (input_b e))"
  by (auto simp: add_edge_def Let_def split: option.splits)

lemma add_edge_stored:
  assumes "has_node g (input_a e)" "has_node g (input_b e)"
    and "map_of (edges g) (input_a e) = Some ds"
  shows "\<exists>g' ds'. add_edge g e = Inr g' \<and> nodes g' = nodes g
           \<and> map_of (edges g') (input_a e) = Some ds'
           \<and> set ds' = insert (input_b e) (set ds) \<and> add_edge g' e = Inr g'"
proof (cases "input_b e \<in> set ds")
  case True
  with assms have "add_edge g e = Inr g" by (simp add: add_edge_def)
  with assms(3) True show ?thesis by auto
next
  case False
  let ?g' = "g\<lparr>edges := AList.update (input_a e) (ds @ [input_b e]) (edges g)\<rparr>"
  from False assms have 1: "add_edge g e = Inr ?g'"
    by (simp add: add_edge_def set_add_def)
  have 2: "map_of (edges ?g') (input_a e) = Some (ds @ [input_b e])"
    by (simp add: update_conv')
  have "has_node ?g' (input_a e)" "has_node ?g' (input_b e)"
    using assms(1,2) by (simp_all add: has_node_def)
  with 2 have 3: "add_edge ?g' e = Inr ?g'"
    by (simp add: add_edge_def)
  from 1 2 3 show ?thesis
    by (intro exI [of _ ?g'] exI [of _ "ds @ [input_b e]"]) simp
qed

text \<open>
  C3. \<open>add_edge\<close> at two Nodes holding 1 and 2 added to a new Graph. A gate built on two
  other Node objects that hold the same values passes both \<open>has_node\<close> tests and then
  raises \<open>KeyError\<close> at \<open>self.edges[source]\<close>, where the specification has the call
  succeed. With the stored Node as source, two calls whose destinations are different
  objects holding 2 both return and leave two adjacency entries of value 2, where the
  specification has none repeated.
\<close>

theorem add_edge_compares_objects:
  "add_node Graph_init \<lparr>ident = 0, node_value = 1\<rparr> False
     = Inr \<lparr>nodes = [\<lparr>ident = 0, node_value = 1\<rparr>],
            edges = [(\<lparr>ident = 0, node_value = 1\<rparr>, [])]\<rparr>
   \<and> add_node \<lparr>nodes = [\<lparr>ident = 0, node_value = 1\<rparr>],
               edges = [(\<lparr>ident = 0, node_value = 1\<rparr>, [])]\<rparr>
        \<lparr>ident = 1, node_value = 2\<rparr> False
     = Inr \<lparr>nodes = [\<lparr>ident = 0, node_value = 1\<rparr>, \<lparr>ident = 1, node_value = 2\<rparr>],
            edges = [(\<lparr>ident = 0, node_value = 1\<rparr>, []),
                     (\<lparr>ident = 1, node_value = 2\<rparr>, [])]\<rparr>
   \<and> has_node \<lparr>nodes = [\<lparr>ident = 0, node_value = 1\<rparr>, \<lparr>ident = 1, node_value = 2\<rparr>],
               edges = [(\<lparr>ident = 0, node_value = 1\<rparr>, []),
                        (\<lparr>ident = 1, node_value = 2\<rparr>, [])]\<rparr>
        \<lparr>ident = 2, node_value = 1\<rparr>
   \<and> has_node \<lparr>nodes = [\<lparr>ident = 0, node_value = 1\<rparr>, \<lparr>ident = 1, node_value = 2\<rparr>],
               edges = [(\<lparr>ident = 0, node_value = 1\<rparr>, []),
                        (\<lparr>ident = 1, node_value = 2\<rparr>, [])]\<rparr>
        \<lparr>ident = 3, node_value = 2\<rparr>
   \<and> add_edge \<lparr>nodes = [\<lparr>ident = 0, node_value = 1\<rparr>, \<lparr>ident = 1, node_value = 2\<rparr>],
               edges = [(\<lparr>ident = 0, node_value = 1\<rparr>, []),
                        (\<lparr>ident = 1, node_value = 2\<rparr>, [])]\<rparr>
        (NAND_init \<lparr>ident = 2, node_value = 1\<rparr> \<lparr>ident = 3, node_value = 2\<rparr>)
     = Inl KeyError
   \<and> add_edge \<lparr>nodes = [\<lparr>ident = 0, node_value = 1\<rparr>, \<lparr>ident = 1, node_value = 2\<rparr>],
               edges = [(\<lparr>ident = 0, node_value = 1\<rparr>, []),
                        (\<lparr>ident = 1, node_value = 2\<rparr>, [])]\<rparr>
        (NAND_init \<lparr>ident = 0, node_value = 1\<rparr> \<lparr>ident = 3, node_value = 2\<rparr>)
     = Inr \<lparr>nodes = [\<lparr>ident = 0, node_value = 1\<rparr>, \<lparr>ident = 1, node_value = 2\<rparr>],
            edges = [(\<lparr>ident = 0, node_value = 1\<rparr>, [\<lparr>ident = 3, node_value = 2\<rparr>]),
                     (\<lparr>ident = 1, node_value = 2\<rparr>, [])]\<rparr>
   \<and> add_edge \<lparr>nodes = [\<lparr>ident = 0, node_value = 1\<rparr>, \<lparr>ident = 1, node_value = 2\<rparr>],
               edges = [(\<lparr>ident = 0, node_value = 1\<rparr>, [\<lparr>ident = 3, node_value = 2\<rparr>]),
                        (\<lparr>ident = 1, node_value = 2\<rparr>, [])]\<rparr>
        (NAND_init \<lparr>ident = 0, node_value = 1\<rparr> \<lparr>ident = 4, node_value = 2\<rparr>)
     = Inr \<lparr>nodes = [\<lparr>ident = 0, node_value = 1\<rparr>, \<lparr>ident = 1, node_value = 2\<rparr>],
            edges = [(\<lparr>ident = 0, node_value = 1\<rparr>,
                      [\<lparr>ident = 3, node_value = 2\<rparr>, \<lparr>ident = 4, node_value = 2\<rparr>]),
                     (\<lparr>ident = 1, node_value = 2\<rparr>, [])]\<rparr>"
  by (simp add: add_node_def add_edge_def has_node_def Graph_init_def set_add_def NAND_init_def
      Let_def)

text \<open>
  The same comparison by object shows inside the reducer: on \<open>!(5.5).!(5.!(10.10))\<close> the
  vertex holding 5 ends with two adjacency entries that hold 5.
\<close>

lemma reducer_repeated_adjacency:
  "parse_input ''!(5.5).!(5.!(10.10))''
     = Some (Inr (\<lparr>nodes = [\<lparr>ident = 0, node_value = 5\<rparr>, \<lparr>ident = 2, node_value = 10\<rparr>],
                   edges = [(\<lparr>ident = 0, node_value = 5\<rparr>,
                             [\<lparr>ident = 1, node_value = 5\<rparr>, \<lparr>ident = 0, node_value = 5\<rparr>]),
                            (\<lparr>ident = 2, node_value = 10\<rparr>,
                             [\<lparr>ident = 2, node_value = 10\<rparr>])]\<rparr>,
                  10))"
  by code_simp

section \<open>The scanner\<close>

lemma digit_star_sound:
  "(d, r) \<in> set (digit_star s) \<Longrightarrow> s = d @ r \<and> (\<forall>c\<in>set d. is_digit c)"
  by (induction s arbitrary: d r) (auto split: if_splits)

lemma nand_expression_sound:
  "(m, g1, g2) \<in> set (nand_expression s) \<Longrightarrow>
   \<exists>c r. s = m @ r \<and> m = ''!('' @ g1 @ [c] @ g2 @ '')'' \<and> c \<noteq> CHR 0x0A
           \<and> (\<forall>x\<in>set g1. is_digit x) \<and> (\<forall>x\<in>set g2. is_digit x)"
  by (auto simp: nand_expression_def split: list.splits if_splits dest!: digit_star_sound)

lemma search_sound:
  "search s = Some (m, g1, g2) \<Longrightarrow>
   \<exists>pre post c. s = pre @ m @ post \<and> m = ''!('' @ g1 @ [c] @ g2 @ '')'' \<and> c \<noteq> CHR 0x0A
      \<and> (\<forall>x\<in>set g1. is_digit x) \<and> (\<forall>x\<in>set g2. is_digit x)"
proof (induction s)
  case Nil
  then show ?case by simp
next
  case (Cons a s)
  show ?case
  proof (cases "nand_expression (a # s)")
    case Nil
    with Cons.prems have "search s = Some (m, g1, g2)" by simp
    from Cons.IH [OF this] obtain pre post c where
      "s = pre @ m @ post" "m = ''!('' @ g1 @ [c] @ g2 @ '')''" "c \<noteq> CHR 0x0A"
      "\<forall>x\<in>set g1. is_digit x" "\<forall>x\<in>set g2. is_digit x" by blast
    then have "a # s = (a # pre) @ m @ post" by simp
    with \<open>m = _\<close> \<open>c \<noteq> _\<close> \<open>\<forall>x\<in>set g1. _\<close> \<open>\<forall>x\<in>set g2. _\<close> show ?thesis by blast
  next
    case (Cons x xs)
    with Cons.prems have "x = (m, g1, g2)" by simp
    with Cons have "(m, g1, g2) \<in> set (nand_expression (a # s))" by simp
    from nand_expression_sound [OF this] obtain c r where
      "a # s = [] @ m @ r" "m = ''!('' @ g1 @ [c] @ g2 @ '')''" "c \<noteq> CHR 0x0A"
      "\<forall>x\<in>set g1. is_digit x" "\<forall>x\<in>set g2. is_digit x" by auto
    then show ?thesis by blast
  qed
qed

text \<open>A group written with a literal dot between two runs of digits is matched.\<close>

lemma digit_star_greedy:
  "\<forall>c\<in>set d. is_digit c \<Longrightarrow> r = c' # r' \<Longrightarrow> \<not> is_digit c' \<Longrightarrow>
   \<exists>rest. digit_star (d @ r) = (d, r) # rest"
  by (induction d) auto

lemma nand_expression_literal_dot:
  assumes "\<forall>c\<in>set g1. is_digit c" "\<forall>c\<in>set g2. is_digit c"
  shows "\<exists>rest. nand_expression (''!('' @ g1 @ ''.'' @ g2 @ '')'' @ t)
           = (''!('' @ g1 @ ''.'' @ g2 @ '')'', g1, g2) # rest"
proof -
  have nd: "\<not> is_digit CHR ''.''" "\<not> is_digit CHR '')''"
    by (simp_all add: is_digit_def)
  obtain rest1 where 1: "digit_star (g1 @ CHR ''.'' # g2 @ CHR '')'' # t)
      = (g1, CHR ''.'' # g2 @ CHR '')'' # t) # rest1"
    using digit_star_greedy [OF assms(1) refl nd(1)] by blast
  obtain rest2 where 2: "digit_star (g2 @ CHR '')'' # t) = (g2, CHR '')'' # t) # rest2"
    using digit_star_greedy [OF assms(2) refl nd(2)] by blast
  show ?thesis by (simp add: nand_expression_def 1 2)
qed

lemma search_literal_dot:
  assumes "\<forall>c\<in>set g1. is_digit c" "\<forall>c\<in>set g2. is_digit c"
  shows "search (''!('' @ g1 @ ''.'' @ g2 @ '')'' @ t)
           = Some (''!('' @ g1 @ ''.'' @ g2 @ '')'', g1, g2)"
proof -
  obtain rest where "nand_expression (''!('' @ g1 @ ''.'' @ g2 @ '')'' @ t)
           = (''!('' @ g1 @ ''.'' @ g2 @ '')'', g1, g2) # rest"
    using nand_expression_literal_dot [OF assms] by blast
  then have "nand_expression (CHR ''!'' # CHR ''('' # g1 @ CHR ''.'' # g2 @ CHR '')'' # t)
           = (''!('' @ g1 @ ''.'' @ g2 @ '')'', g1, g2) # rest"
    by simp
  then show ?thesis by simp
qed

section \<open>Replacement and the count of NAND marks\<close>

lemma count_replace_le:
  "count_list new x = 0 \<Longrightarrow> count_list (replace_nonempty s old new) x \<le> count_list s x"
proof (induction s old new rule: replace_nonempty.induct)
  case (1 old new)
  then show ?case by simp
next
  case (2 c cs old new)
  show ?case
  proof (cases "take (length old) (c # cs) = old")
    case True
    have "count_list (drop (length old - 1) cs) x \<le> count_list cs x"
      by (metis append_take_drop_id count_list_append le_add2)
    with True 2 show ?thesis by (auto simp: le_Suc_eq)
  next
    case False
    with 2 show ?thesis by simp
  qed
qed

lemma count_replace_less:
  "count_list new x = 0 \<Longrightarrow> 0 < count_list old x \<Longrightarrow> s = pre @ old @ post \<Longrightarrow>
   count_list (replace_nonempty s old new) x < count_list s x"
proof (induction s old new arbitrary: pre rule: replace_nonempty.induct)
  case (1 old new)
  then show ?case by auto
next
  case (2 c cs old new)
  show ?case
  proof (cases "take (length old) (c # cs) = old")
    case True
    then have split: "c # cs = old @ drop (length old) (c # cs)"
      by (metis append_take_drop_id)
    from "2.prems"(2) have "old \<noteq> []" by auto
    then have d: "drop (length old) (c # cs) = drop (length old - 1) cs"
      by (cases old) simp_all
    have "count_list (replace_nonempty (drop (length old - 1) cs) old new) x
            \<le> count_list (drop (length old - 1) cs) x"
      using "2.prems"(1) by (rule count_replace_le)
    moreover have "count_list (c # cs) x
        = count_list old x + count_list (drop (length old - 1) cs) x"
      by (subst split) (simp only: count_list_append d)
    ultimately show ?thesis using True "2.prems"(1,2) by simp
  next
    case False
    with "2.prems"(3) obtain p pre' where pre: "pre = p # pre'"
      by (cases pre) auto
    with "2.prems"(3) have "cs = pre' @ old @ post" by simp
    with "2.IH"(2) [OF False "2.prems"(1,2)] have
      "count_list (replace_nonempty cs old new) x < count_list cs x" by blast
    with False show ?thesis by simp
  qed
qed

declare str_nat.simps [simp del]

lemma digit_char_is_digit: "is_digit (digit_char n)"
proof -
  have "n mod 10 < length ''0123456789''" by simp
  then have "''0123456789'' ! (n mod 10) \<in> set ''0123456789''" by (rule nth_mem)
  then show ?thesis by (simp only: is_digit_def digit_char_def)
qed

lemma str_nat_digits: "\<forall>c\<in>set (str_nat n). is_digit c"
proof (induction n rule: str_nat.induct)
  case (1 n)
  show ?case
  proof (cases "n < 10")
    case True
    then show ?thesis by (subst str_nat.simps) (simp add: digit_char_is_digit)
  next
    case False
    with 1 show ?thesis by (subst str_nat.simps) (simp add: digit_char_is_digit)
  qed
qed

lemma not_digit_mark: "\<not> is_digit CHR ''!''"
  by (simp add: is_digit_def)

lemma py_str_no_mark: "count_list (py_str v) CHR ''!'' = 0"
proof -
  have "CHR ''!'' \<notin> set (str_nat n)" for n
    using str_nat_digits [of n] not_digit_mark by blast
  then have "CHR ''!'' \<notin> set (py_str v)" by (simp add: py_str_def)
  then show ?thesis by (simp add: count_list_0_iff)
qed

section \<open>The loop body\<close>

lemma read_output_total:
  "\<exists>nd gate' fresh'. read_output gate fresh = Some (nd, gate', fresh')
      \<and> nand_output gate' = Some nd"
proof (cases "nand_output gate")
  case None
  obtain k where "find_bits (NOT (node_value (input_a gate) AND node_value (input_b gate))) 4
      = Some (4 * 2 ^ k)"
    using find_bits_doubling [of 4] by (metis zero_less_numeral)
  with None show ?thesis
    by (simp add: read_output_def compute_def del: bit.de_Morgan_conj)
next
  case (Some nd)
  then show ?thesis by (simp add: read_output_def compute_def)
qed

lemma build_gate_total: "\<exists>r. build_gate g n1 n2 fresh = Some r"
proof -
  obtain nd gate' fresh' where
    "read_output (NAND_init n1 n2) fresh = Some (nd, gate', fresh')"
    using read_output_total by blast
  then show ?thesis
    by (simp add: build_gate_def Let_def split: sum.split)
qed

lemma build_gate_cached:
  assumes "build_gate g n1 n2 fresh = Some (Inr (g', nand1, fresh'))"
  shows "\<exists>nd. nand_output nand1 = Some nd"
proof -
  obtain nd gate' f' where r:
    "read_output (NAND_init n1 n2) fresh = Some (nd, gate', f')" "nand_output gate' = Some nd"
    using read_output_total by blast
  with assms have "nand1 = gate'"
    by (simp add: build_gate_def Let_def split: sum.splits)
  with r show ?thesis by simp
qed

lemma loop_body_total: "\<exists>r. loop_body g fresh s m = Some r"
proof -
  obtain m0 g1 g2 where m: "m = (m0, g1, g2)" by (cases m)
  have step: "\<exists>r. (case build_gate g n1 n2 f of
           None \<Rightarrow> None
         | Some (Inl e) \<Rightarrow> Some (Inl e)
         | Some (Inr (g', nand1, fresh')) \<Rightarrow>
      (case read_output nand1 fresh' of
           None \<Rightarrow> None
         | Some (out, nand1', fresh'') \<Rightarrow>
             Some (Inr (g', fresh'',
                        py_replace s m0 (py_str (node_value out)))))) = Some r" for n1 n2 f
  proof -
    obtain r where r: "build_gate g n1 n2 f = Some r" using build_gate_total by blast
    show ?thesis
    proof (cases r)
      case (Inl e)
      with r show ?thesis by simp
    next
      case (Inr t)
      obtain g' nand1 fresh' where t: "t = (g', nand1, fresh')" by (cases t)
      obtain nd gate' f' where "read_output nand1 fresh' = Some (nd, gate', f')"
        using read_output_total by blast
      with r Inr t show ?thesis by simp
    qed
  qed
  show ?thesis
    unfolding loop_body_def m using step
    by (simp split: sum.split)
qed

lemma loop_body_text:
  "loop_body g fresh s (m0, g1, g2) = Some (Inr (g', fresh', s')) \<Longrightarrow>
   \<exists>v. s' = py_replace s m0 (py_str v)"
  by (auto simp: loop_body_def split: sum.splits option.splits)

lemma loop_body_decreases:
  assumes "search s = Some m" "loop_body g fresh s m = Some (Inr (g', fresh', s'))"
  shows "count_list s' CHR ''!'' < count_list s CHR ''!''"
proof -
  obtain m0 g1 g2 where m: "m = (m0, g1, g2)" by (cases m)
  from search_sound [OF assms(1) [unfolded m]] obtain pre post c where
    s: "s = pre @ m0 @ post" and m0: "m0 = ''!('' @ g1 @ [c] @ g2 @ '')''" by blast
  from loop_body_text [OF assms(2) [unfolded m]] obtain v where
    s': "s' = py_replace s m0 (py_str v)" by blast
  from m0 have "m0 \<noteq> []" "0 < count_list m0 CHR ''!''" by simp_all
  then have "count_list (replace_nonempty s m0 (py_str v)) CHR ''!'' < count_list s CHR ''!''"
    using py_str_no_mark [of v] s by (intro count_replace_less)
  with s' \<open>m0 \<noteq> []\<close> show ?thesis
    by (simp only: py_replace_def if_False)
qed

section \<open>The loop returns\<close>

lemma reduce_loop_total: "\<exists>r. reduce_loop g fresh s = Some r"
proof (induction "count_list s CHR ''!''" arbitrary: g fresh s rule: less_induct)
  case less
  show ?case
  proof (cases "search s")
    case None
    then show ?thesis by (subst reduce_loop.simps) simp
  next
    case (Some m)
    obtain r where r: "loop_body g fresh s m = Some r" using loop_body_total by blast
    show ?thesis
    proof (cases r)
      case (Inl e)
      with Some r show ?thesis by (subst reduce_loop.simps) simp
    next
      case (Inr t)
      obtain g' fresh' s' where t: "t = (g', fresh', s')" by (cases t)
      from loop_body_decreases [OF Some r [unfolded Inr t]]
      have "\<exists>r. reduce_loop g' fresh' s' = Some r" by (rule less.hyps)
      with Some r Inr t show ?thesis by (subst reduce_loop.simps) simp
    qed
  qed
qed




section \<open>After the loop\<close>

lemma py_split_nonempty: "py_split s \<noteq> []"
  by (induction s) (auto split: list.splits)

lemma map_int_length: "map_int ps = Inr vs \<Longrightarrow> length vs = length ps"
  by (induction ps arbitrary: vs) (auto split: sum.splits)








text \<open>
  C2. On \<open>1.2.3\<close> the loop makes no iteration, the text splits into the three operands
  1, 2 and 3, and the branch for more than two operands is taken. The exception that
  leaves \<open>parse_input\<close> is the \<open>TypeError\<close> of \<open>InvalidInputError.__init__\<close>, not an
  \<open>InvalidInputError\<close>. The branches for one and for two operands are \<open>finalize_one\<close>
  and \<open>finalize_two\<close>.
\<close>

theorem three_operands_TypeError:
  "search ''1.2.3'' = None
   \<and> map_int (py_split ''1.2.3'') = Inr [1, 2, 3]
   \<and> finalize ''1.2.3'' = Inl TypeError
   \<and> parse_input ''1.2.3'' = Some (Inl TypeError)"
  by code_simp

text \<open>
  C5. The dot between the two groups of the pattern is not escaped, so it stands for any
  character but the line feed: \<open>!(1x2)\<close> is matched with the operands 1 and 2 and
  reduced to 15, where the specification has it not matched. A group written with a
  literal dot is matched: \<open>search_literal_dot\<close>.
\<close>

theorem unescaped_dot_matches:
  "search ''!(1x2)'' = Some (''!(1x2)'', ''1'', ''2'')
   \<and> parse_input ''!(1x2)''
       = Some (Inr (\<lparr>nodes = [\<lparr>ident = 0, node_value = 1\<rparr>, \<lparr>ident = 1, node_value = 2\<rparr>,
                              \<lparr>ident = 2, node_value = 15\<rparr>],
                     edges = [(\<lparr>ident = 0, node_value = 1\<rparr>, [\<lparr>ident = 1, node_value = 2\<rparr>]),
                              (\<lparr>ident = 1, node_value = 2\<rparr>, []),
                              (\<lparr>ident = 2, node_value = 15\<rparr>, [])]\<rparr>,
                    15))"
  by code_simp

section \<open>The Graph inside the loop\<close>

lemma resolve_cases:
  "\<exists>n'. resolve g nd = Inr n' \<and> node_value n' = node_value nd
      \<and> (n' \<in> set (nodes g) \<or> (n' = nd \<and> \<not> has_node g nd))"
proof (cases "find (\<lambda>x. node_value x = node_value nd) (nodes g)")
  case None
  then have "\<not> has_node g nd"
    by (auto simp: find_None_iff has_node_def list_ex_iff)
  with None show ?thesis
    by (simp add: resolve_def get_node_def is_ValueError_def)
next
  case (Some x)
  then have "x \<in> set (nodes g)" "node_value x = node_value nd"
    by (auto simp: find_Some_iff)
  with Some show ?thesis
    by (simp add: resolve_def get_node_def)
qed

lemma add_node_ignore:
  "\<exists>g'. add_node g nd True = Inr g' \<and> has_node g' nd
      \<and> (\<forall>x. has_node g x \<longrightarrow> has_node g' x)
      \<and> (\<forall>k. map_of (edges g) k \<noteq> None \<longrightarrow> map_of (edges g') k \<noteq> None)
      \<and> (nd \<in> set (nodes g) \<or> \<not> has_node g nd \<longrightarrow> nd \<in> set (nodes g'))
      \<and> (\<forall>x\<in>set (nodes g). x \<in> set (nodes g'))
      \<and> (keys_ok g \<longrightarrow> keys_ok g')"
proof (cases "has_node g nd")
  case True
  then have "add_node g nd True = Inr g" by (simp add: add_node_def)
  with True show ?thesis by auto
next
  case False
  let ?g' = "g\<lparr>nodes := nodes g @ [nd], edges := AList.update nd [] (edges g)\<rparr>"
  from False have "add_node g nd True = Inr ?g'" by (rule add_node_absent)
  moreover have "has_node ?g' nd" by (simp add: has_node_def)
  moreover have "\<forall>x. has_node g x \<longrightarrow> has_node ?g' x" by (simp add: has_node_def)
  moreover have "\<forall>k. map_of (edges g) k \<noteq> None \<longrightarrow> map_of (edges ?g') k \<noteq> None"
    by (simp add: update_conv')
  moreover have "keys_ok g \<longrightarrow> keys_ok ?g'"
    by (auto simp: keys_ok_def list_all_iff update_conv')
  ultimately show ?thesis by auto
qed

lemma add_edge_errors: "add_edge g e = Inl x \<Longrightarrow> x = NodesNotPresent \<or> x = KeyError"
  by (auto simp: add_edge_def Let_def split: if_splits option.splits)

lemma add_edge_keeps:
  "add_edge g e = Inr g' \<Longrightarrow> nodes g' = nodes g \<and> (keys_ok g \<longrightarrow> keys_ok g')"
  by (auto simp: add_edge_def Let_def keys_ok_def list_all_iff update_conv'
      split: if_splits option.splits)

lemma build_gate_endpoints:
  "\<exists>g1 g2. add_node g node1 True = Inr g1 \<and> add_node g1 node2 True = Inr g2
     \<and> has_node g2 node1 \<and> has_node g2 node2
     \<and> add_edge g2 (NAND_init node1 node2) \<noteq> Inl NodesNotPresent
     \<and> (keys_ok g \<and> (node1 \<in> set (nodes g) \<or> \<not> has_node g node1)
          \<longrightarrow> keys_ok g2 \<and> (\<exists>g3. add_edge g2 (NAND_init node1 node2) = Inr g3))"
proof -
  obtain g1 where g1: "add_node g node1 True = Inr g1" "has_node g1 node1"
    "node1 \<in> set (nodes g) \<or> \<not> has_node g node1 \<longrightarrow> node1 \<in> set (nodes g1)"
    "keys_ok g \<longrightarrow> keys_ok g1"
    using add_node_ignore [of g node1] by blast
  obtain g2 where g2: "add_node g1 node2 True = Inr g2" "has_node g2 node2"
    "\<forall>x. has_node g1 x \<longrightarrow> has_node g2 x"
    "\<forall>x\<in>set (nodes g1). x \<in> set (nodes g2)"
    "keys_ok g1 \<longrightarrow> keys_ok g2"
    using add_node_ignore [of g1 node2] by blast
  from g1(2) g2(3) have both: "has_node g2 node1" by blast
  with g2(2) have no: "add_edge g2 (NAND_init node1 node2) \<noteq> Inl NodesNotPresent"
    by (simp add: add_edge_NodesNotPresent_iff NAND_init_def)
  have "keys_ok g2 \<and> (\<exists>g3. add_edge g2 (NAND_init node1 node2) = Inr g3)"
    if k: "keys_ok g" and n: "node1 \<in> set (nodes g) \<or> \<not> has_node g node1"
  proof -
    from k g1(4) g2(5) have k2: "keys_ok g2" by blast
    from n g1(3) g2(4) have "node1 \<in> set (nodes g2)" by blast
    with k2 obtain ds where "map_of (edges g2) node1 = Some ds"
      by (auto simp: keys_ok_def list_all_iff)
    with add_edge_stored [of g2 "NAND_init node1 node2" ds] both g2(2)
    have "\<exists>g3. add_edge g2 (NAND_init node1 node2) = Inr g3"
      by (auto simp: NAND_init_def)
    with k2 show ?thesis by blast
  qed
  with g1(1) g2(1) both g2(2) no show ?thesis by blast
qed

lemma build_gate_result:
  "\<exists>r. build_gate g node1 node2 fresh = Some r
     \<and> (\<forall>e. r = Inl e \<longrightarrow> e = KeyError
              \<and> \<not> (keys_ok g \<and> (node1 \<in> set (nodes g) \<or> \<not> has_node g node1)))
     \<and> (\<forall>g' nand1 fresh'. r = Inr (g', nand1, fresh') \<longrightarrow> (keys_ok g \<longrightarrow> keys_ok g'))"
proof -
  obtain g1 g2 where a: "add_node g node1 True = Inr g1" "add_node g1 node2 True = Inr g2"
    "add_edge g2 (NAND_init node1 node2) \<noteq> Inl NodesNotPresent"
    "keys_ok g \<and> (node1 \<in> set (nodes g) \<or> \<not> has_node g node1)
          \<longrightarrow> keys_ok g2 \<and> (\<exists>g3. add_edge g2 (NAND_init node1 node2) = Inr g3)"
    "keys_ok g \<longrightarrow> keys_ok g2"
    using build_gate_endpoints [of g node1 node2] add_node_ignore [of g node1]
      add_node_ignore by (metis sum.inject(2))
  obtain out gate' f' where o:
    "read_output (NAND_init node1 node2) fresh = Some (out, gate', f')"
    using read_output_total by blast
  show ?thesis
  proof (cases "add_edge g2 (NAND_init node1 node2)")
    case (Inl e)
    with a(3) add_edge_errors have "e = KeyError" by blast
    with Inl a show ?thesis by (auto simp: build_gate_def Let_def)
  next
    case (Inr g3)
    obtain g4 where g4: "add_node g3 out True = Inr g4" "keys_ok g3 \<longrightarrow> keys_ok g4"
      using add_node_ignore [of g3 out] by blast
    from add_edge_keeps [OF Inr] a(5) g4(2) have "keys_ok g \<longrightarrow> keys_ok g4" by blast
    with Inr a o g4 show ?thesis by (simp add: build_gate_def Let_def)
  qed
qed

lemma py_int_error: "py_int x = Inl e \<Longrightarrow> e = InvalidLiteral"
  by (simp add: py_int_def Let_def split: if_splits)

lemma loop_body_result:
  assumes "loop_body g fresh s m = Some r"
  shows "(\<forall>e. r = Inl e \<longrightarrow> e = InvalidLiteral \<or> (e = KeyError \<and> \<not> keys_ok g))
       \<and> (\<forall>g' fresh' s'. r = Inr (g', fresh', s') \<longrightarrow> (keys_ok g \<longrightarrow> keys_ok g'))"
proof -
  obtain m0 g1 g2 where m: "m = (m0, g1, g2)" by (cases m)
  show ?thesis
  proof (cases "py_int g1")
    case (Inl e)
    with assms m py_int_error [OF Inl] show ?thesis by (auto simp: loop_body_def)
  next
    case v1: (Inr v1)
    show ?thesis
    proof (cases "py_int g2")
      case (Inl e)
      with assms m v1 py_int_error [OF Inl] show ?thesis by (auto simp: loop_body_def)
    next
      case v2: (Inr v2)
      obtain n1 where n1: "resolve g \<lparr>ident = fresh, node_value = v1\<rparr> = Inr n1"
        "n1 \<in> set (nodes g) \<or> \<not> has_node g n1"
        using resolve_cases [of g "\<lparr>ident = fresh, node_value = v1\<rparr>"] by blast
      obtain n2 where n2: "resolve g \<lparr>ident = Suc fresh, node_value = v2\<rparr> = Inr n2"
        using resolve_cases [of g "\<lparr>ident = Suc fresh, node_value = v2\<rparr>"] by blast
      obtain rb where rb: "build_gate g n1 n2 (Suc (Suc fresh)) = Some rb"
        "\<forall>e. rb = Inl e \<longrightarrow> e = KeyError
              \<and> \<not> (keys_ok g \<and> (n1 \<in> set (nodes g) \<or> \<not> has_node g n1))"
        "\<forall>g' nand1 fresh'. rb = Inr (g', nand1, fresh') \<longrightarrow> (keys_ok g \<longrightarrow> keys_ok g')"
        using build_gate_result [of g n1 n2 "Suc (Suc fresh)"] by blast
      show ?thesis
      proof (cases rb)
        case (Inl e)
        with rb(2) n1(2) have "e = KeyError \<and> \<not> keys_ok g" by blast
        moreover from assms m v1 v2 n1(1) n2 rb(1) Inl have "r = Inl e"
          by (simp add: loop_body_def)
        ultimately show ?thesis by simp
      next
        case (Inr t)
        obtain g' nand1 fresh' where t: "t = (g', nand1, fresh')" by (cases t)
        obtain out gate' f' where "read_output nand1 fresh' = Some (out, gate', f')"
          using read_output_total by blast
        with assms m v1 v2 n1(1) n2 rb(1) Inr t
        have "r = Inr (g', f', py_replace s m0 (py_str (node_value out)))"
          by (simp add: loop_body_def)
        with rb(3) Inr t show ?thesis by simp
      qed
    qed
  qed
qed

text \<open>An invariant rule for the loop, by induction on the number of NAND marks.\<close>

lemma reduce_loop_rule:
  assumes step: "\<And>g fresh s m g' fresh' s'.
      I g \<Longrightarrow> search s = Some m \<Longrightarrow> loop_body g fresh s m = Some (Inr (g', fresh', s'))
        \<Longrightarrow> I g'"
    and err: "\<And>g fresh s m e.
      I g \<Longrightarrow> search s = Some m \<Longrightarrow> loop_body g fresh s m = Some (Inl e) \<Longrightarrow> E e"
  shows "I g \<Longrightarrow> reduce_loop g fresh s = Some r \<Longrightarrow>
         (\<forall>e. r = Inl e \<longrightarrow> E e)
         \<and> (\<forall>g' fresh' s'. r = Inr (g', fresh', s') \<longrightarrow> I g' \<and> search s' = None)"
proof (induction "count_list s CHR ''!''" arbitrary: g fresh s rule: less_induct)
  case less
  show ?case
  proof (cases "search s")
    case None
    with less.prems(2) have "r = Inr (g, fresh, s)"
      by (subst (asm) reduce_loop.simps) simp
    with None less.prems(1) show ?thesis by simp
  next
    case (Some m)
    obtain rb where rb: "loop_body g fresh s m = Some rb" using loop_body_total by blast
    show ?thesis
    proof (cases rb)
      case (Inl e)
      with Some rb less.prems(2) have "r = Inl e"
        by (subst (asm) reduce_loop.simps) simp
      with err [OF less.prems(1) Some rb [unfolded Inl]] show ?thesis by simp
    next
      case (Inr t)
      obtain g' fresh' s' where t: "t = (g', fresh', s')" by (cases t)
      note body = rb [unfolded Inr t]
      from Some body less.prems(2) have "reduce_loop g' fresh' s' = Some r"
        by (subst (asm) reduce_loop.simps) simp
      with less.hyps [OF loop_body_decreases [OF Some body] step [OF less.prems(1) Some body]]
      show ?thesis by blast
    qed
  qed
qed

lemma reduce_loop_result:
  assumes "reduce_loop g fresh s = Some r"
  shows "(\<forall>e. r = Inl e \<longrightarrow> e = InvalidLiteral \<or> (e = KeyError \<and> \<not> keys_ok g))
       \<and> (\<forall>g' fresh' s'. r = Inr (g', fresh', s') \<longrightarrow> search s' = None)"
proof (cases "keys_ok g")
  case True
  have "(\<forall>e. r = Inl e \<longrightarrow> e = InvalidLiteral)
      \<and> (\<forall>g' fresh' s'. r = Inr (g', fresh', s') \<longrightarrow> keys_ok g' \<and> search s' = None)"
    using True assms
  proof (rule reduce_loop_rule [where I = keys_ok and E = "\<lambda>e. e = InvalidLiteral", rotated 2])
    fix g fresh s m g' fresh' s'
    assume "keys_ok g" "loop_body g fresh s m = Some (Inr (g', fresh', s'))"
    with loop_body_result show "keys_ok g'" by blast
  next
    fix g fresh s m e
    assume "keys_ok g" "loop_body g fresh s m = Some (Inl e)"
    with loop_body_result show "e = InvalidLiteral" by blast
  qed
  then show ?thesis by blast
next
  case False
  have "(\<forall>e. r = Inl e \<longrightarrow> e = InvalidLiteral \<or> e = KeyError)
      \<and> (\<forall>g' fresh' s'. r = Inr (g', fresh', s') \<longrightarrow> True \<and> search s' = None)"
    using TrueI assms
  proof (rule reduce_loop_rule [where I = "\<lambda>_. True"
        and E = "\<lambda>e. e = InvalidLiteral \<or> e = KeyError", rotated 2])
    fix g fresh s m e
    assume "loop_body g fresh s m = Some (Inl e)"
    with loop_body_result show "e = InvalidLiteral \<or> e = KeyError" by blast
  qed simp
  with False show ?thesis by blast
qed


lemma finalize_error_kind:
  "finalize s = Inl e \<Longrightarrow> e = InvalidLiteral \<or> e = TypeError"
proof -
  assume a: "finalize s = Inl e"
  have "raise_InvalidInputError msg = TypeError" for msg
    by (simp add: raise_InvalidInputError_def InvalidInputError_init_def)
  moreover have "vs \<noteq> []" if "map_int (py_split s) = Inr vs" for vs
    using map_int_length [OF that] py_split_nonempty [of s] by auto
  moreover have "e' = InvalidLiteral" if "map_int ps = Inl e'" for ps e'
    using that by (induction ps) (auto dest: py_int_error split: sum.splits)
  ultimately show ?thesis using a
    by (auto simp: finalize_def split: sum.splits if_splits list.splits)
qed

text \<open>
  C7. In the gate of an iteration, from every Graph and for every two input Nodes, the
  two \<open>add_node\<close> calls return and leave both input values present, so the \<open>add_edge\<close>
  call that follows does not take its "nodes not present" branch. That failure leaves
  neither the gate, nor the loop body, nor the loop, nor \<open>parse_input\<close>.
\<close>

theorem add_edge_never_dangling:
  "(\<exists>g1 g2. add_node g node1 True = Inr g1 \<and> add_node g1 node2 True = Inr g2
       \<and> has_node g2 node1 \<and> has_node g2 node2
       \<and> add_edge g2 (NAND_init node1 node2) \<noteq> Inl NodesNotPresent)
   \<and> build_gate g node1 node2 fresh \<noteq> Some (Inl NodesNotPresent)
   \<and> loop_body g fresh s m \<noteq> Some (Inl NodesNotPresent)
   \<and> reduce_loop g fresh s \<noteq> Some (Inl NodesNotPresent)
   \<and> parse_input s \<noteq> Some (Inl NodesNotPresent)"
proof (intro conjI)
  show "\<exists>g1 g2. add_node g node1 True = Inr g1 \<and> add_node g1 node2 True = Inr g2
       \<and> has_node g2 node1 \<and> has_node g2 node2
       \<and> add_edge g2 (NAND_init node1 node2) \<noteq> Inl NodesNotPresent"
    using build_gate_endpoints [of g node1 node2] by blast
next
  show "build_gate g node1 node2 fresh \<noteq> Some (Inl NodesNotPresent)"
    using build_gate_result [of g node1 node2 fresh] by auto
next
  show "loop_body g fresh s m \<noteq> Some (Inl NodesNotPresent)"
    using loop_body_result [of g fresh s m] by auto
next
  show "reduce_loop g fresh s \<noteq> Some (Inl NodesNotPresent)"
    using reduce_loop_result [of g fresh s] by auto
next
  show "parse_input s \<noteq> Some (Inl NodesNotPresent)"
  proof
    assume a: "parse_input s = Some (Inl NodesNotPresent)"
    obtain r where r: "reduce_loop Graph_init 0 s = Some r"
      using reduce_loop_total by blast
    show False
    proof (cases r)
      case (Inl e)
      with r a have "e = NodesNotPresent" by (simp add: parse_input_def)
      with reduce_loop_result [OF r] Inl show False by simp
    next
      case (Inr t)
      obtain g' fresh' s' where "t = (g', fresh', s')" by (cases t)
      with r a Inr have "finalize s' = Inl NodesNotPresent"
        by (simp add: parse_input_def split: sum.splits)
      with finalize_error_kind show False by blast
    qed
  qed
qed

theorem add_edge_never_dangling_witness:
  "parse_input ''!(5.5).!(5.!(10.10))'' \<noteq> Some (Inl NodesNotPresent)
   \<and> build_gate Graph_init \<lparr>ident = 0, node_value = 5\<rparr> \<lparr>ident = 1, node_value = 5\<rparr> 2
        \<noteq> Some (Inl NodesNotPresent)"
  using add_edge_never_dangling
    [of Graph_init "\<lparr>ident = 0, node_value = 5\<rparr>" "\<lparr>ident = 1, node_value = 5\<rparr>" 2
      "''!(5.5).!(5.!(10.10))''"]
  by blast




text \<open>
  C6. \<open>parse_input\<close> returns on \<open>!(10.20).!(30.40)\<close>. The vertices of the Graph hold
  10, 20, 30, 40 and the two gate outputs 15 and 7, its edges are 10 to 20 and 30 to
  40, and the result is the AND of the two outputs.
\<close>

theorem two_independent_gates:
  "\<exists>g. parse_input ''!(10.20).!(30.40)'' = Some (Inr (g, 15 AND 7))
     \<and> set (map node_value (nodes g)) = {10, 20, 30, 40} \<union> {15, 7}
     \<and> length (nodes g) = 6
     \<and> edge_pairs g = [(10, 20), (30, 40)]
     \<and> map_option (\<lambda>(out, _). node_value out)
          (read_output
             (NAND_init \<lparr>ident = 0, node_value = 10\<rparr> \<lparr>ident = 1, node_value = 20\<rparr>) 2)
         = Some 15
     \<and> map_option (\<lambda>(out, _). node_value out)
          (read_output
             (NAND_init \<lparr>ident = 3, node_value = 30\<rparr> \<lparr>ident = 4, node_value = 40\<rparr>) 5)
         = Some 7"
proof -
  let ?g = "\<lparr>nodes = [\<lparr>ident = 0, node_value = 10\<rparr>, \<lparr>ident = 1, node_value = 20\<rparr>,
                     \<lparr>ident = 2, node_value = 15\<rparr>, \<lparr>ident = 3, node_value = 30\<rparr>,
                     \<lparr>ident = 4, node_value = 40\<rparr>, \<lparr>ident = 5, node_value = 7\<rparr>],
            edges = [(\<lparr>ident = 0, node_value = 10\<rparr>, [\<lparr>ident = 1, node_value = 20\<rparr>]),
                     (\<lparr>ident = 1, node_value = 20\<rparr>, []),
                     (\<lparr>ident = 2, node_value = 15\<rparr>, []),
                     (\<lparr>ident = 3, node_value = 30\<rparr>, [\<lparr>ident = 4, node_value = 40\<rparr>]),
                     (\<lparr>ident = 4, node_value = 40\<rparr>, []),
                     (\<lparr>ident = 5, node_value = 7\<rparr>, [])]\<rparr>"
  have 1: "parse_input ''!(10.20).!(30.40)'' = Some (Inr (?g, 15 AND 7))"
    by code_simp
  have 2: "set (map node_value (nodes ?g)) = {10, 20, 30, 40} \<union> {15, 7}"
    by auto
  have 3: "length (nodes ?g) = 6"
    by simp
  have 4: "edge_pairs ?g = [(10, 20), (30, 40)]"
    by (simp add: edge_pairs_def)
  have 5: "map_option (\<lambda>(out, _). node_value out)
          (read_output
             (NAND_init \<lparr>ident = 0, node_value = 10\<rparr> \<lparr>ident = 1, node_value = 20\<rparr>) 2)
         = Some 15"
    by code_simp
  have 6: "map_option (\<lambda>(out, _). node_value out)
          (read_output
             (NAND_init \<lparr>ident = 3, node_value = 30\<rparr> \<lparr>ident = 4, node_value = 40\<rparr>) 5)
         = Some 7"
    by code_simp
  from 1 2 3 4 5 6 show ?thesis by blast
qed

end
